theory Spec2Isabelle
  imports Main
begin

section \<open>Exceptions\<close>

text \<open>
  The exceptions the modelled code raises. \<open>NoSuchAct\<close>, \<open>NoSuchUser\<close>, \<open>NoSuchRole\<close>,
  \<open>DupUser\<close> and \<open>DupRole\<close> are the classes of \<^verbatim>\<open>synapse.exc\<close> named in the source;
  \<open>NameError\<close> and \<open>TypeError\<close> are the interpreter's own; \<open>Raised\<close> stands for any
  other exception a registered handler raises, named by its text.
\<close>

datatype error =
    NoSuchAct string
  | NoSuchUser string
  | NoSuchRole string
  | DupUser string
  | DupRole string
  | NameError string
  | TypeError
  | Raised string

section \<open>reactor.py: one-to-one dispatch\<close>

text \<open>
  A message is a tufo \<^verbatim>\<open>(typ, kwargs)\<close> (\<^verbatim>\<open>common.tufo\<close>); \<^verbatim>\<open>mesg[0]\<close> is its first
  component. A handler returns a result or raises; \<^verbatim>\<open>self.actfuncs\<close> is a dict from
  names to handlers.
\<close>

type_synonym 'i mesg = "string \<times> 'i"

type_synonym ('i, 'r) handler = "'i mesg \<Rightarrow> error + 'r"

type_synonym ('i, 'r) reactor = "string \<rightharpoonup> ('i, 'r) handler"

definition Reactor_init :: "('i, 'r) reactor" where
  "Reactor_init = Map.empty"

definition act :: "('i, 'r) reactor \<Rightarrow> string \<Rightarrow> ('i, 'r) handler \<Rightarrow> ('i, 'r) reactor" where
  "act actfuncs name func = actfuncs(name \<mapsto> func)"

definition react :: "('i, 'r) reactor \<Rightarrow> 'i mesg \<Rightarrow> error + 'r" where
  "react actfuncs mesg =
     (case actfuncs (fst mesg) of
        None \<Rightarrow> Inl (NoSuchAct (fst mesg))
      | Some func \<Rightarrow> func mesg)"

text \<open>The reactor obtained from a fresh one by a sequence of \<^verbatim>\<open>act\<close> calls, oldest first.\<close>

fun acts :: "('i, 'r) reactor \<Rightarrow> (string \<times> ('i, 'r) handler) list \<Rightarrow> ('i, 'r) reactor" where
  "acts actfuncs [] = actfuncs"
| "acts actfuncs ((name, func) # regs) = acts (act actfuncs name func) regs"

text \<open>The handler of the latest registration for a name, if there is one.\<close>

fun latest :: "(string \<times> 'h) list \<Rightarrow> string \<Rightarrow> 'h option" where
  "latest [] name = None"
| "latest ((n, h) # regs) name =
     (case latest regs name of
        Some h' \<Rightarrow> Some h'
      | None \<Rightarrow> if n = name then Some h else None)"

section \<open>Shell-glob matching\<close>

text \<open>
  \<^verbatim>\<open>Rules.allow\<close> calls \<^verbatim>\<open>fnmatch.fnmatch(perm, rule)\<close> of the standard library, which
  is not part of the repository. The model of \<^verbatim>\<open>Rules\<close> takes the matcher as a
  parameter \<open>fnm\<close> (name first, pattern second), so every theorem about the cache holds
  for whatever the library's matcher decides. \<open>glob_match\<close> below is the instance used
  on concrete inputs: the library's translation of a pattern (\<^verbatim>\<open>*\<close> any run of
  characters, \<^verbatim>\<open>?\<close> one character, \<^verbatim>\<open>[seq]\<close> and \<^verbatim>\<open>[!seq]\<close> character classes with
  ranges, anything else literal) over ASCII text on a case-sensitive platform. An
  unclosed \<^verbatim>\<open>[\<close> is a literal; a range whose bounds are reversed contains nothing.
\<close>

datatype tok = Star | Quest | Lit char | Class bool string

definition find_close :: "string \<Rightarrow> (string \<times> string) option" where
  "find_close pat =
     (let (a, r1) = (case pat of
                       [] \<Rightarrow> ([], pat)
                     | c # r \<Rightarrow> if c = CHR ''!'' then ([c], r) else ([], pat));
          (b, r2) = (case r1 of
                       [] \<Rightarrow> ([], r1)
                     | c # r \<Rightarrow> if c = CHR '']'' then ([c], r) else ([], r1));
          body = takeWhile (\<lambda>c. c \<noteq> CHR '']'') r2
      in case dropWhile (\<lambda>c. c \<noteq> CHR '']'') r2 of
           [] \<Rightarrow> None
         | _ # rest \<Rightarrow> Some (a @ b @ body, rest))"

lemma dropWhile_Cons_shorter: "dropWhile P xs = y # rest \<Longrightarrow> length rest < length xs"
  using length_dropWhile_le [of P xs] by simp

lemma find_close_shorter: "find_close pat = Some (stuff, rest) \<Longrightarrow> length rest < Suc (length pat)"
  by (auto simp: find_close_def Let_def split: list.splits if_splits prod.splits
      dest!: dropWhile_Cons_shorter)

function translate :: "string \<Rightarrow> tok list" where
  "translate [] = []"
| "translate (c # pat) =
     (if c = CHR ''*'' then Star # translate pat
      else if c = CHR ''?'' then Quest # translate pat
      else if c = CHR ''['' then
        (case find_close pat of
           None \<Rightarrow> Lit c # translate pat
         | Some (stuff, rest) \<Rightarrow>
             (if hd stuff = CHR ''!'' then Class True (tl stuff) else Class False stuff)
               # translate rest)
      else Lit c # translate pat)"
  by pat_completeness auto
termination
  by (relation "measure length") (auto dest: find_close_shorter)

fun in_class :: "char \<Rightarrow> string \<Rightarrow> bool" where
  "in_class c (lo # d # hi # rest) =
     (if d = CHR ''-'' then ((of_char lo :: nat) \<le> of_char c \<and> (of_char c :: nat) \<le> of_char hi)
                            \<or> in_class c rest
      else c = lo \<or> in_class c (d # hi # rest))"
| "in_class c (x # rest) = (c = x \<or> in_class c rest)"
| "in_class c [] = False"

fun toks_match :: "tok list \<Rightarrow> string \<Rightarrow> bool" where
  "toks_match [] s = (s = [])"
| "toks_match (Star # ts) [] = toks_match ts []"
| "toks_match (Star # ts) (c # cs) = (toks_match ts (c # cs) \<or> toks_match (Star # ts) cs)"
| "toks_match (Quest # ts) [] = False"
| "toks_match (Quest # ts) (c # cs) = toks_match ts cs"
| "toks_match (Lit a # ts) [] = False"
| "toks_match (Lit a # ts) (c # cs) = (a = c \<and> toks_match ts cs)"
| "toks_match (Class neg body # ts) [] = False"
| "toks_match (Class neg body # ts) (c # cs) = (in_class c body \<noteq> neg \<and> toks_match ts cs)"

definition glob_match :: "string \<Rightarrow> string \<Rightarrow> bool" where
  "glob_match name pat = toks_match (translate pat) name"

section \<open>userauth.py: the Rules evaluator\<close>

text \<open>
  A \<^verbatim>\<open>Rules\<close> object: the user it belongs to, the rule globs it was last given and
  the dict from permission to decision.
\<close>

record rules_obj =
  r_user :: string
  r_rules :: "string list"
  r_cache :: "string \<rightharpoonup> bool"

text \<open>The loop of \<^verbatim>\<open>allow\<close>: \<^verbatim>\<open>ret\<close> starts False and the first matching rule breaks with True.\<close>

fun scan :: "(string \<Rightarrow> string \<Rightarrow> bool) \<Rightarrow> string \<Rightarrow> string list \<Rightarrow> bool" where
  "scan fnm perm [] = False"
| "scan fnm perm (rule # rest) = (if fnm perm rule then True else scan fnm perm rest)"

text \<open>
  \<^verbatim>\<open>allow\<close> returns the decision and the object after the call. A cached False is not
  \<^verbatim>\<open>None\<close>, so it is returned as it is.
\<close>

definition allow :: "(string \<Rightarrow> string \<Rightarrow> bool) \<Rightarrow> rules_obj \<Rightarrow> string \<Rightarrow> bool \<times> rules_obj" where
  "allow fnm self perm =
     (case r_cache self perm of
        None \<Rightarrow>
          (let ret = scan fnm perm (r_rules self)
           in (ret, self\<lparr>r_cache := (r_cache self)(perm \<mapsto> ret)\<rparr>))
      | Some ret \<Rightarrow> (ret, self))"

text \<open>\<^verbatim>\<open>_onBumpUser\<close>: the message carries the new rule list.\<close>

definition onBumpUser :: "rules_obj \<Rightarrow> string list \<Rightarrow> rules_obj" where
  "onBumpUser self rls = self\<lparr>r_rules := rls, r_cache := Map.empty\<rparr>"

text \<open>
  \<^verbatim>\<open>_onTeleSock\<close> reads the name \<^verbatim>\<open>user\<close>, which is neither a parameter nor a local of
  the method (those are \<^verbatim>\<open>self\<close> and \<^verbatim>\<open>mesg\<close>) nor a name of the module, so the
  argument of \<^verbatim>\<open>getUserRules\<close> raises before the call is made, before \<^verbatim>\<open>self.rules\<close> is
  assigned and before \<^verbatim>\<open>self.cache.clear()\<close>. The handler returns the exception and
  the object as it was.
\<close>

definition onTeleSock :: "rules_obj \<Rightarrow> (error + unit) \<times> rules_obj" where
  "onTeleSock self = (Inl (NameError ''user''), self)"

section \<open>userauth.py: the UserAuth store\<close>

text \<open>
  Modelled from the spec: the cortex (\<^verbatim>\<open>core\<close>), \<^verbatim>\<open>synapse.lib.cache\<close>
  (\<^verbatim>\<open>TufoPropCache\<close>, \<^verbatim>\<open>KeyCache\<close>) and \<^verbatim>\<open>synapse.eventbus\<close> are not among the
  sources. A tufo is a form with its properties; users and roles are unique by name and
  each carries a rule list (the list-valued property \<^verbatim>\<open>auth:rules\<close>, appended to and
  removed from by value); a user-role link is keyed by \<^verbatim>\<open>user:role\<close> and the store
  returns links in the order they were formed. \<^verbatim>\<open>self.users\<close> and \<^verbatim>\<open>self.roles\<close> look a
  tufo up by name and give \<^verbatim>\<open>None\<close> when there is none; \<^verbatim>\<open>self.rules\<close> holds one Rules
  object per user, made on first use. \<open>fired\<close> records every event given to
  \<^verbatim>\<open>self.fire\<close>, oldest first.
\<close>

record tufo =
  t_form :: string
  t_valu :: string
  t_props :: "(string \<times> string) list"

record subject =
  s_tufo :: tufo
  s_rules :: "string list"

record userrole =
  ur_valu :: string
  ur_user :: string
  ur_role :: string

record auth =
  users :: "string \<rightharpoonup> subject"
  roles :: "string \<rightharpoonup> subject"
  userroles :: "userrole list"
  rules :: "string \<rightharpoonup> rules_obj"
  fired :: "(string \<times> string list) list"

definition UserAuth_init :: auth where
  "UserAuth_init =
     \<lparr>users = Map.empty, roles = Map.empty, userroles = [], rules = Map.empty, fired = []\<rparr>"

definition formTufoByProp :: "string \<Rightarrow> string \<Rightarrow> (string \<times> string) list \<Rightarrow> tufo" where
  "formTufoByProp form valu props = \<lparr>t_form = form, t_valu = valu, t_props = props\<rparr>"

text \<open>
  An operation of \<^verbatim>\<open>UserAuth\<close> returns its result or the exception it raised, together
  with the state it leaves behind: what was written before a raise stays written.
\<close>

type_synonym 'a op = "(error + 'a) \<times> auth"

definition reqUserTufo :: "auth \<Rightarrow> string \<Rightarrow> error + subject" where
  "reqUserTufo s user =
     (case users s user of None \<Rightarrow> Inl (NoSuchUser user) | Some usfo \<Rightarrow> Inr usfo)"

definition reqRoleTufo :: "auth \<Rightarrow> string \<Rightarrow> error + subject" where
  "reqRoleTufo s role =
     (case roles s role of None \<Rightarrow> Inl (NoSuchRole role) | Some rofo \<Rightarrow> Inr rofo)"

definition addUser :: "auth \<Rightarrow> string \<Rightarrow> (string \<times> string) list \<Rightarrow> tufo op" where
  "addUser s user props =
     (if users s user \<noteq> None then (Inl (DupUser user), s)
      else
        (let usfo = formTufoByProp ''auth:user'' user props
         in (Inr usfo, s\<lparr>users := (users s)(user \<mapsto> \<lparr>s_tufo = usfo, s_rules = []\<rparr>)\<rparr>)))"

definition addRole :: "auth \<Rightarrow> string \<Rightarrow> (string \<times> string) list \<Rightarrow> tufo op" where
  "addRole s role props =
     (if roles s role \<noteq> None then (Inl (DupRole role), s)
      else
        (let rofo = formTufoByProp ''auth:role'' role props
         in (Inr rofo, s\<lparr>roles := (roles s)(role \<mapsto> \<lparr>s_tufo = rofo, s_rules = []\<rparr>)\<rparr>)))"

definition getUser :: "auth \<Rightarrow> string \<Rightarrow> tufo option" where
  "getUser s user = map_option s_tufo (users s user)"

text \<open>The body of \<^verbatim>\<open>getRole\<close> is its docstring alone: it returns \<^verbatim>\<open>None\<close> for every name.\<close>

definition getRole :: "auth \<Rightarrow> string \<Rightarrow> tufo option" where
  "getRole s role = None"

text \<open>
  \<^verbatim>\<open>getUserRules\<close>: the user's own list, extended by the list of the role of each link
  of the user, in store order. \<^verbatim>\<open>self.roles.get\<close> gives \<^verbatim>\<open>None\<close> for a role that is
  gone, and reading the list of \<^verbatim>\<open>None\<close> raises.
\<close>

fun extend_rules :: "auth \<Rightarrow> string list \<Rightarrow> userrole list \<Rightarrow> error + string list" where
  "extend_rules s rls [] = Inr rls"
| "extend_rules s rls (userrole # rest) =
     (case roles s (ur_role userrole) of
        None \<Rightarrow> Inl TypeError
      | Some rofo \<Rightarrow> extend_rules s (rls @ s_rules rofo) rest)"

definition getUserRules :: "auth \<Rightarrow> string \<Rightarrow> error + string list" where
  "getUserRules s user =
     (case reqUserTufo s user of
        Inl e \<Rightarrow> Inl e
      | Inr usfo \<Rightarrow>
          extend_rules s (s_rules usfo) (filter (\<lambda>ur. ur_user ur = user) (userroles s)))"

definition getUserRoles :: "auth \<Rightarrow> string \<Rightarrow> error + string list" where
  "getUserRoles s user =
     (case reqUserTufo s user of
        Inl e \<Rightarrow> Inl e
      | Inr usfo \<Rightarrow> Inr (map ur_role (filter (\<lambda>ur. ur_user ur = user) (userroles s))))"

text \<open>
  \<^verbatim>\<open>self.fire(evt, rules=rls)\<close>: every Rules object is subscribed, by its constructor,
  to \<^verbatim>\<open>'auth:bump:%s' % user\<close> for its own user; the event is handed, within the call,
  to \<^verbatim>\<open>_onBumpUser\<close> of the objects subscribed to that name. Objects that \<^verbatim>\<open>self.rules\<close>
  no longer holds stay subscribed but can no longer be asked, and are not kept.
\<close>

definition fire :: "auth \<Rightarrow> string \<Rightarrow> string list \<Rightarrow> auth" where
  "fire s evt rls =
     s\<lparr>rules := (\<lambda>k. map_option
                   (\<lambda>obj. if ''auth:bump:'' @ r_user obj = evt then onBumpUser obj rls else obj)
                   (rules s k)),
       fired := fired s @ [(evt, rls)]\<rparr>"

definition bumpUserRules :: "auth \<Rightarrow> string \<Rightarrow> unit op" where
  "bumpUserRules s user =
     (case getUserRules s user of
        Inl e \<Rightarrow> (Inl e, s)
      | Inr rls \<Rightarrow> (Inr (), fire s (''auth:bump:'' @ user) rls))"

text \<open>A loop that bumps each user of a list in turn; an exception ends it.\<close>

fun bumpEach :: "auth \<Rightarrow> string list \<Rightarrow> unit op" where
  "bumpEach s [] = (Inr (), s)"
| "bumpEach s (user # rest) =
     (case bumpUserRules s user of
        (Inl e, s') \<Rightarrow> (Inl e, s')
      | (Inr _, s') \<Rightarrow> bumpEach s' rest)"

definition addUserRule :: "auth \<Rightarrow> string \<Rightarrow> string \<Rightarrow> unit op" where
  "addUserRule s user rule =
     (case reqUserTufo s user of
        Inl e \<Rightarrow> (Inl e, s)
      | Inr usfo \<Rightarrow>
          bumpUserRules
            (s\<lparr>users := (users s)(user \<mapsto> usfo\<lparr>s_rules := s_rules usfo @ [rule]\<rparr>)\<rparr>) user)"

definition delUserRule :: "auth \<Rightarrow> string \<Rightarrow> string \<Rightarrow> unit op" where
  "delUserRule s user rule =
     (case reqUserTufo s user of
        Inl e \<Rightarrow> (Inl e, s)
      | Inr usfo \<Rightarrow>
          bumpUserRules
            (s\<lparr>users := (users s)(user \<mapsto> usfo\<lparr>s_rules := removeAll rule (s_rules usfo)\<rparr>)\<rparr>) user)"

definition addRoleRule :: "auth \<Rightarrow> string \<Rightarrow> string \<Rightarrow> unit op" where
  "addRoleRule s role rule =
     (case reqRoleTufo s role of
        Inl e \<Rightarrow> (Inl e, s)
      | Inr rofo \<Rightarrow>
          (let s1 = s\<lparr>roles := (roles s)(role \<mapsto> rofo\<lparr>s_rules := s_rules rofo @ [rule]\<rparr>)\<rparr>
           in bumpEach s1 (map ur_user (filter (\<lambda>ur. ur_role ur = role) (userroles s1)))))"

definition delRoleRule :: "auth \<Rightarrow> string \<Rightarrow> string \<Rightarrow> unit op" where
  "delRoleRule s role rule =
     (case reqRoleTufo s role of
        Inl e \<Rightarrow> (Inl e, s)
      | Inr rofo \<Rightarrow>
          (let s1 = s\<lparr>roles := (roles s)(role \<mapsto> rofo\<lparr>s_rules := removeAll rule (s_rules rofo)\<rparr>)\<rparr>
           in bumpEach s1 (map ur_user (filter (\<lambda>ur. ur_role ur = role) (userroles s1)))))"

text \<open>
  \<^verbatim>\<open>addUserRole\<close> forms the link \<^verbatim>\<open>'%s:%s' % (user,role)\<close>; forming a tufo that exists
  gives the one that is there.
\<close>

definition addUserRole :: "auth \<Rightarrow> string \<Rightarrow> string \<Rightarrow> unit op" where
  "addUserRole s user role =
     (case reqUserTufo s user of
        Inl e \<Rightarrow> (Inl e, s)
      | Inr usfo \<Rightarrow>
          (case reqRoleTufo s role of
             Inl e \<Rightarrow> (Inl e, s)
           | Inr rofo \<Rightarrow>
               (let valu = user @ '':'' @ role;
                    s1 = (if valu \<in> ur_valu ` set (userroles s) then s
                          else s\<lparr>userroles := userroles s
                                   @ [\<lparr>ur_valu = valu, ur_user = user, ur_role = role\<rparr>]\<rparr>)
                in bumpUserRules s1 user)))"

definition delUserRole :: "auth \<Rightarrow> string \<Rightarrow> string \<Rightarrow> unit op" where
  "delUserRole s user role =
     (case reqUserTufo s user of
        Inl e \<Rightarrow> (Inl e, s)
      | Inr usfo \<Rightarrow>
          (case reqRoleTufo s role of
             Inl e \<Rightarrow> (Inl e, s)
           | Inr rofo \<Rightarrow>
               bumpUserRules
                 (s\<lparr>userroles := filter (\<lambda>ur. ur_valu ur \<noteq> user @ '':'' @ role) (userroles s)\<rparr>)
                 user))"

definition delUser :: "auth \<Rightarrow> string \<Rightarrow> unit op" where
  "delUser s user =
     (case reqUserTufo s user of
        Inl e \<Rightarrow> (Inl e, s)
      | Inr usfo \<Rightarrow>
          (Inr (), s\<lparr>users := (users s)(user := None),
                     userroles := filter (\<lambda>ur. ur_user ur \<noteq> user) (userroles s),
                     rules := (rules s)(user := None)\<rparr>))"

definition delRole :: "auth \<Rightarrow> string \<Rightarrow> unit op" where
  "delRole s role =
     (case reqRoleTufo s role of
        Inl e \<Rightarrow> (Inl e, s)
      | Inr rofo \<Rightarrow>
          (let us = map ur_user (filter (\<lambda>ur. ur_role ur = role) (userroles s))
           in bumpEach
                (s\<lparr>roles := (roles s)(role := None),
                   userroles := filter (\<lambda>ur. ur_role ur \<noteq> role) (userroles s)\<rparr>) us))"

text \<open>
  \<^verbatim>\<open>Rules.__init__\<close> (through \<^verbatim>\<open>_getUserRulesCache\<close>): an empty cache and the rules
  \<^verbatim>\<open>getUserRules\<close> gives, whose exception leaves no object behind in \<^verbatim>\<open>self.rules\<close>.
\<close>

definition getUserRulesCache :: "auth \<Rightarrow> string \<Rightarrow> error + rules_obj" where
  "getUserRulesCache s user =
     (case getUserRules s user of
        Inl e \<Rightarrow> Inl e
      | Inr rls \<Rightarrow> Inr \<lparr>r_user = user, r_rules = rls, r_cache = Map.empty\<rparr>)"

text \<open>\<^verbatim>\<open>self.rules.get(user)\<close>: the object held for the user, made and kept on first use.\<close>

definition rules_get :: "auth \<Rightarrow> string \<Rightarrow> rules_obj op" where
  "rules_get s user =
     (case rules s user of
        Some obj \<Rightarrow> (Inr obj, s)
      | None \<Rightarrow>
          (case getUserRulesCache s user of
             Inl e \<Rightarrow> (Inl e, s)
           | Inr obj \<Rightarrow> (Inr obj, s\<lparr>rules := (rules s)(user \<mapsto> obj)\<rparr>)))"

definition isUserAllowed :: "(string \<Rightarrow> string \<Rightarrow> bool) \<Rightarrow> auth \<Rightarrow> string \<Rightarrow> string \<Rightarrow> bool op" where
  "isUserAllowed fnm s user perm =
     (case rules_get s user of
        (Inl e, s') \<Rightarrow> (Inl e, s')
      | (Inr obj, s') \<Rightarrow>
          (case allow fnm obj perm of
             (ret, obj') \<Rightarrow> (Inr ret, s'\<lparr>rules := (rules s')(user \<mapsto> obj')\<rparr>)))"

text \<open>
  The reconnect signal \<^verbatim>\<open>tele:sock:init\<close>, to which every Rules object is subscribed
  by its constructor: each object held is left as its \<^verbatim>\<open>_onTeleSock\<close> leaves it.
\<close>

definition teleSockInit :: "auth \<Rightarrow> auth" where
  "teleSockInit s = s\<lparr>rules := (\<lambda>k. map_option (\<lambda>obj. snd (onTeleSock obj)) (rules s k))\<rparr>"

section \<open>Invariants\<close>

text \<open>
  Every decision in the cache of a Rules object is the one its rule list gives.
\<close>

definition cache_ok :: "(string \<Rightarrow> string \<Rightarrow> bool) \<Rightarrow> rules_obj \<Rightarrow> bool" where
  "cache_ok fnm obj \<longleftrightarrow> (\<forall>perm ret. r_cache obj perm = Some ret \<longrightarrow> ret = scan fnm perm (r_rules obj))"

text \<open>
  A well-formed store: every link names a user and a role that exist, and the Rules
  object held for a name belongs to that name, which is a user.
\<close>

definition store_ok :: "auth \<Rightarrow> bool" where
  "store_ok s \<longleftrightarrow>
     (\<forall>ur \<in> set (userroles s). users s (ur_user ur) \<noteq> None \<and> roles s (ur_role ur) \<noteq> None) \<and>
     (\<forall>u obj. rules s u = Some obj \<longrightarrow> r_user obj = u \<and> users s u \<noteq> None)"

text \<open>The rule list a role name stands for in the store.\<close>

definition rules_of_role :: "auth \<Rightarrow> string \<Rightarrow> string list" where
  "rules_of_role s role = (case roles s role of None \<Rightarrow> [] | Some rofo \<Rightarrow> s_rules rofo)"

text \<open>
  The outcome of an operation run from \<open>s\<close> is a success that has fired, for every
  user whose \<^verbatim>\<open>getUserRules\<close> differs from what it was in \<open>s\<close>, the event
  \<^verbatim>\<open>auth:bump:<user>\<close> carrying that user's new rule list.
\<close>

definition bumps_changed :: "auth \<Rightarrow> unit op \<Rightarrow> bool" where
  "bumps_changed s out \<longleftrightarrow>
     fst out = Inr () \<and>
     (\<exists>evs. fired (snd out) = fired s @ evs \<and>
        (\<forall>v. getUserRules (snd out) v \<noteq> getUserRules s v \<longrightarrow>
           (\<exists>rls. getUserRules (snd out) v = Inr rls \<and> (''auth:bump:'' @ v, rls) \<in> set evs)))"

section \<open>A store to run the operations on\<close>

text \<open>
  One user, \<^verbatim>\<open>visi\<close>, with a rule of its own and two roles, each with one rule; the Rules
  object of \<^verbatim>\<open>visi\<close> has already decided, and cached, that \<^verbatim>\<open>tufo.form.foo:bar\<close> is
  not allowed.
\<close>

definition example_store :: auth where
  "example_store =
     \<lparr>users = [''visi'' \<mapsto> \<lparr>s_tufo = formTufoByProp ''auth:user'' ''visi'' [],
                             s_rules = [''foo.bar'']\<rparr>],
      roles = [''ops'' \<mapsto> \<lparr>s_tufo = formTufoByProp ''auth:role'' ''ops'' [],
                            s_rules = [''node:*'']\<rparr>,
               ''admin'' \<mapsto> \<lparr>s_tufo = formTufoByProp ''auth:role'' ''admin'' [],
                              s_rules = [''tufo.form.baz'']\<rparr>],
      userroles = [\<lparr>ur_valu = ''visi:ops'', ur_user = ''visi'', ur_role = ''ops''\<rparr>,
                   \<lparr>ur_valu = ''visi:admin'', ur_user = ''visi'', ur_role = ''admin''\<rparr>],
      rules = [''visi'' \<mapsto> \<lparr>r_user = ''visi'',
                             r_rules = [''foo.bar'', ''node:*'', ''tufo.form.baz''],
                             r_cache = [''tufo.form.foo:bar'' \<mapsto> False]\<rparr>],
      fired = [(''auth:bump:visi'', [''foo.bar'']),
               (''auth:bump:visi'', [''foo.bar'', ''node:*'']),
               (''auth:bump:visi'', [''foo.bar'', ''node:*'', ''tufo.form.baz''])]\<rparr>"

text \<open>
  The same store after \<^verbatim>\<open>tufo.form.foo:*\<close> was added to the rules of \<^verbatim>\<open>visi\<close> while the
  connection that carries the events was down: the Rules object has not heard of it.
\<close>

definition stale_store :: auth where
  "stale_store =
     example_store\<lparr>users := (users example_store)
        (''visi'' \<mapsto> \<lparr>s_tufo = formTufoByProp ''auth:user'' ''visi'' [],
                       s_rules = [''foo.bar'', ''tufo.form.foo:*'']\<rparr>)\<rparr>"

section \<open>The reactor dispatches to the latest handler\<close>

lemma act_apply: "act actfuncs name func k = (if k = name then Some func else actfuncs k)"
  by (simp add: act_def)

lemma acts_lookup:
  "acts actfuncs regs name = (case latest regs name of Some h \<Rightarrow> Some h | None \<Rightarrow> actfuncs name)"
proof (induction regs arbitrary: actfuncs)
  case Nil
  show ?case by simp
next
  case (Cons reg regs)
  obtain n h where reg: "reg = (n, h)" by (cases reg)
  have "acts actfuncs (reg # regs) name = acts (act actfuncs n h) regs name"
    by (simp add: reg)
  also have "\<dots> = (case latest regs name of Some h' \<Rightarrow> Some h' | None \<Rightarrow> act actfuncs n h name)"
    by (rule Cons.IH)
  also have "\<dots> = (case latest (reg # regs) name of Some h' \<Rightarrow> Some h' | None \<Rightarrow> actfuncs name)"
    by (simp add: reg act_apply split: option.splits)
  finally show ?case .
qed

lemma latest_None: "name \<notin> fst ` set regs \<Longrightarrow> latest regs name = None"
  by (induction regs) (auto split: option.splits)

lemma latest_append_Cons:
  "name \<notin> fst ` set regs' \<Longrightarrow> latest (regs @ (name, h) # regs') name = Some h"
  by (induction regs) (auto simp: latest_None split: option.splits)

text \<open>
  Claim C9. \<^verbatim>\<open>react\<close> raises \<^verbatim>\<open>NoSuchAct\<close> for a message whose kind no \<^verbatim>\<open>act\<close> call has
  registered; otherwise its result is, unchanged, what the handler of the latest
  registration for that kind returns or raises, whatever was registered for the kind
  before: a second \<^verbatim>\<open>act\<close> for a kind replaces the first.
\<close>

theorem react_latest_handler:
  "(fst m \<notin> fst ` set regs \<longrightarrow> react (acts Reactor_init regs) m = Inl (NoSuchAct (fst m))) \<and>
   (fst m \<notin> fst ` set regs' \<longrightarrow>
      react (acts Reactor_init (regs @ (fst m, func) # regs')) m = func m) \<and>
   react (act (act actfuncs (fst m) func') (fst m) func) m = func m"
  by (simp add: react_def acts_lookup latest_None latest_append_Cons Reactor_init_def act_apply)

theorem react_latest_handler_witness:
  "fst (''foo:bar'', 30 :: int) \<notin> fst ` set [(''baz:faz'', \<lambda>m. Inl (Raised ''oops''))] \<and>
   react (acts Reactor_init [(''baz:faz'', \<lambda>m. Inl (Raised ''oops''))]) (''foo:bar'', 30 :: int)
     = (Inl (NoSuchAct ''foo:bar'') :: error + int) \<and>
   react (acts Reactor_init
           ([(''baz:faz'', \<lambda>m. Inl (Raised ''oops'')), (''foo:bar'', \<lambda>m. Inr (snd m))]
            @ (''foo:bar'', \<lambda>m. Inr (20 + snd m)) # [(''baz:faz'', \<lambda>m. Inl (Raised ''oops''))]))
         (''foo:bar'', 30 :: int)
     = (Inr 50 :: error + int) \<and>
   react (acts Reactor_init [(''baz:faz'', \<lambda>m. Inl (Raised ''oops''))]) (''baz:faz'', 30 :: int)
     = (Inl (Raised ''oops'') :: error + int)"
  using react_latest_handler
    [of "(''foo:bar'', 30 :: int)" "[(''baz:faz'', \<lambda>m. Inl (Raised ''oops''))]"
        "[(''baz:faz'', \<lambda>m. Inl (Raised ''oops''))]" "\<lambda>m. Inr (20 + snd m)"]
  by (simp add: react_def Reactor_init_def act_def)

section \<open>The Rules evaluator\<close>

lemma scan_iff: "scan fnm perm rls = (\<exists>rule \<in> set rls. fnm perm rule)"
  by (induction rls) auto

lemma cache_ok_allow: "cache_ok fnm self \<Longrightarrow> cache_ok fnm (snd (allow fnm self perm))"
  by (auto simp: cache_ok_def allow_def Let_def split: option.splits)

lemma cache_ok_onBumpUser: "cache_ok fnm (onBumpUser self rls)"
  by (simp add: cache_ok_def onBumpUser_def)

lemma cache_ok_onTeleSock: "cache_ok fnm self \<Longrightarrow> cache_ok fnm (snd (onTeleSock self))"
  by (simp add: onTeleSock_def)

lemma cache_ok_getUserRulesCache: "getUserRulesCache s user = Inr obj \<Longrightarrow> cache_ok fnm obj"
  by (auto simp: getUserRulesCache_def cache_ok_def split: sum.splits)

text \<open>
  Claim C1. For a Rules object whose cached decisions are those of its rule list (as
  they are from its construction on, by the four lemmas above), \<^verbatim>\<open>allow\<close> returns True
  exactly when some rule of the list matches the permission, hence False for the empty
  list; and the object it leaves is again such an object.
\<close>

theorem allow_iff_some_rule_matches:
  "cache_ok fnm self \<Longrightarrow>
     fst (allow fnm self perm) = (\<exists>rule \<in> set (r_rules self). fnm perm rule) \<and>
     (r_rules self = [] \<longrightarrow> fst (allow fnm self perm) = False) \<and>
     cache_ok fnm (snd (allow fnm self perm))"
proof -
  assume ok: "cache_ok fnm self"
  have "fst (allow fnm self perm) = scan fnm perm (r_rules self)"
  proof (cases "r_cache self perm")
    case None
    then show ?thesis by (simp add: allow_def Let_def)
  next
    case (Some ret)
    with ok have "ret = scan fnm perm (r_rules self)" by (simp add: cache_ok_def)
    with Some show ?thesis by (simp add: allow_def)
  qed
  with ok show ?thesis by (simp add: scan_iff cache_ok_allow)
qed

theorem allow_iff_some_rule_matches_witness:
  "cache_ok glob_match
     \<lparr>r_user = ''visi'', r_rules = [''foo.bar'', ''tufo.form.foo:*''],
      r_cache = [''tufo.form.baz'' \<mapsto> False]\<rparr> \<and>
   fst (allow glob_match
     \<lparr>r_user = ''visi'', r_rules = [''foo.bar'', ''tufo.form.foo:*''],
      r_cache = [''tufo.form.baz'' \<mapsto> False]\<rparr> ''tufo.form.foo:bar'') = True \<and>
   (\<exists>rule \<in> set [''foo.bar'', ''tufo.form.foo:*'']. glob_match ''tufo.form.foo:bar'' rule)"
  using allow_iff_some_rule_matches
    [of glob_match "\<lparr>r_user = ''visi'', r_rules = [''foo.bar'', ''tufo.form.foo:*''],
                     r_cache = [''tufo.form.baz'' \<mapsto> False]\<rparr>" "''tufo.form.foo:bar''"]
  by (simp add: cache_ok_def glob_match_def)

text \<open>
  Claim C6. \<^verbatim>\<open>allow\<close> returns the decision the cache holds for the permission, leaving
  the object as it is; when the cache holds none it returns the decision of the scan
  of the current rule list and stores it under the permission; either way the cache
  then holds the returned decision, and asking again returns it and changes nothing.
\<close>

theorem allow_cached_or_computed:
  "(r_cache self perm = Some ret \<longrightarrow> allow fnm self perm = (ret, self)) \<and>
   (r_cache self perm = None \<longrightarrow>
      fst (allow fnm self perm) = (\<exists>rule \<in> set (r_rules self). fnm perm rule) \<and>
      snd (allow fnm self perm)
        = self\<lparr>r_cache := (r_cache self)(perm \<mapsto> \<exists>rule \<in> set (r_rules self). fnm perm rule)\<rparr>) \<and>
   r_cache (snd (allow fnm self perm)) perm = Some (fst (allow fnm self perm)) \<and>
   allow fnm (snd (allow fnm self perm)) perm
     = (fst (allow fnm self perm), snd (allow fnm self perm))"
  by (auto simp: allow_def Let_def scan_iff split: option.splits)

theorem allow_cached_or_computed_witness:
  "r_cache \<lparr>r_user = ''visi'', r_rules = [''tufo.form.foo:*''],
            r_cache = [''tufo.form.baz'' \<mapsto> False]\<rparr> ''tufo.form.baz'' = Some False \<and>
   fst (allow glob_match
          \<lparr>r_user = ''visi'', r_rules = [''tufo.form.foo:*''],
           r_cache = [''tufo.form.baz'' \<mapsto> False]\<rparr> ''tufo.form.baz'') = False \<and>
   r_cache \<lparr>r_user = ''visi'', r_rules = [''tufo.form.foo:*''],
            r_cache = [''tufo.form.baz'' \<mapsto> False]\<rparr> ''tufo.form.foo:bar'' = None \<and>
   fst (allow glob_match
          \<lparr>r_user = ''visi'', r_rules = [''tufo.form.foo:*''],
           r_cache = [''tufo.form.baz'' \<mapsto> False]\<rparr> ''tufo.form.foo:bar'') = True \<and>
   r_cache (snd (allow glob_match
          \<lparr>r_user = ''visi'', r_rules = [''tufo.form.foo:*''],
           r_cache = [''tufo.form.baz'' \<mapsto> False]\<rparr> ''tufo.form.foo:bar'')) ''tufo.form.foo:bar''
     = Some True"
  using allow_cached_or_computed
      [of "\<lparr>r_user = ''visi'', r_rules = [''tufo.form.foo:*''],
            r_cache = [''tufo.form.baz'' \<mapsto> False]\<rparr>" "''tufo.form.baz''" False glob_match]
    allow_cached_or_computed
      [of "\<lparr>r_user = ''visi'', r_rules = [''tufo.form.foo:*''],
            r_cache = [''tufo.form.baz'' \<mapsto> False]\<rparr>" "''tufo.form.foo:bar''" False glob_match]
  by (simp add: glob_match_def)

section \<open>The store: frame and invariant lemmas\<close>

lemma fire_store:
  "users (fire s e r) = users s" "roles (fire s e r) = roles s"
  "userroles (fire s e r) = userroles s" "fired (fire s e r) = fired s @ [(e, r)]"
  by (simp_all add: fire_def)

lemma rules_fire:
  "rules (fire s e r) k =
     map_option (\<lambda>obj. if ''auth:bump:'' @ r_user obj = e then onBumpUser obj r else obj) (rules s k)"
  by (simp add: fire_def)

lemma extend_rules_cong:
  "roles s' = roles s \<Longrightarrow> extend_rules s' rls urs = extend_rules s rls urs"
  by (induction urs arbitrary: rls) (auto split: option.splits)

lemma getUserRules_cong:
  "users s' = users s \<Longrightarrow> roles s' = roles s \<Longrightarrow> userroles s' = userroles s \<Longrightarrow>
     getUserRules s' u = getUserRules s u"
  using extend_rules_cong [of s' s]
  by (simp add: getUserRules_def reqUserTufo_def split: option.splits)

lemma getUserRules_fire: "getUserRules (fire s e r) u = getUserRules s u"
  by (rule getUserRules_cong) (simp_all add: fire_store)

lemma extend_rules_ok:
  "\<forall>ur \<in> set urs. roles s (ur_role ur) \<noteq> None \<Longrightarrow>
     extend_rules s rls urs = Inr (rls @ concat (map (\<lambda>ur. rules_of_role s (ur_role ur)) urs))"
  by (induction urs arbitrary: rls) (auto simp: rules_of_role_def split: option.splits)

lemma getUserRules_ok:
  assumes "store_ok s" and "users s u = Some usfo"
  shows "getUserRules s u =
     Inr (s_rules usfo @ concat (map (rules_of_role s)
            (map ur_role (filter (\<lambda>ur. ur_user ur = u) (userroles s)))))"
proof -
  have "\<forall>ur \<in> set (filter (\<lambda>ur. ur_user ur = u) (userroles s)). roles s (ur_role ur) \<noteq> None"
    using assms(1) by (simp add: store_ok_def)
  from extend_rules_ok [OF this] assms(2) show ?thesis
    by (simp add: getUserRules_def reqUserTufo_def map_map comp_def)
qed

lemma getUserRules_None: "users s u = None \<Longrightarrow> getUserRules s u = Inl (NoSuchUser u)"
  by (simp add: getUserRules_def reqUserTufo_def)

lemma store_ok_fire: "store_ok s \<Longrightarrow> store_ok (fire s e r)"
  by (auto simp: store_ok_def fire_store rules_fire onBumpUser_def split: if_splits)

lemma bumpUserRules_ok:
  assumes "store_ok s" and "users s u = Some usfo"
  shows "\<exists>rls. getUserRules s u = Inr rls \<and>
           bumpUserRules s u = (Inr (), fire s (''auth:bump:'' @ u) rls)"
  using getUserRules_ok [OF assms] by (simp add: bumpUserRules_def)

lemma store_ok_bumpUserRules: "store_ok s \<Longrightarrow> store_ok (snd (bumpUserRules s u))"
  by (auto simp: bumpUserRules_def store_ok_fire split: sum.splits)

lemma store_ok_bumpEach: "store_ok s \<Longrightarrow> store_ok (snd (bumpEach s us))"
proof (induction us arbitrary: s)
  case Nil
  then show ?case by simp
next
  case (Cons u us)
  from Cons.prems have "store_ok (snd (bumpUserRules s u))" by (rule store_ok_bumpUserRules)
  then show ?case
    by (cases "bumpUserRules s u") (auto split: sum.splits intro: Cons.IH)
qed

lemma bumpEach_ok:
  "store_ok s \<Longrightarrow> \<forall>u \<in> set us. users s u \<noteq> None \<Longrightarrow>
     \<exists>s' evs. bumpEach s us = (Inr (), s') \<and>
       users s' = users s \<and> roles s' = roles s \<and> userroles s' = userroles s \<and>
       fired s' = fired s @ evs \<and>
       (\<forall>u \<in> set us. \<exists>rls. getUserRules s u = Inr rls \<and> (''auth:bump:'' @ u, rls) \<in> set evs)"
proof (induction us arbitrary: s)
  case Nil
  then show ?case by simp
next
  case (Cons u us)
  from Cons.prems obtain usfo where u: "users s u = Some usfo" by auto
  from bumpUserRules_ok [OF Cons.prems(1) u] obtain rls where
    rls: "getUserRules s u = Inr rls" and
    b: "bumpUserRules s u = (Inr (), fire s (''auth:bump:'' @ u) rls)" by blast
  let ?s1 = "fire s (''auth:bump:'' @ u) rls"
  have ok1: "store_ok ?s1" using Cons.prems(1) by (rule store_ok_fire)
  have us1: "\<forall>u \<in> set us. users ?s1 u \<noteq> None" using Cons.prems(2) by (simp add: fire_store)
  from Cons.IH [OF ok1 us1] obtain s' evs where
    e: "bumpEach ?s1 us = (Inr (), s')" and
    st: "users s' = users ?s1" "roles s' = roles ?s1" "userroles s' = userroles ?s1" and
    f: "fired s' = fired ?s1 @ evs" and
    ev: "\<forall>u \<in> set us. \<exists>rls. getUserRules ?s1 u = Inr rls \<and> (''auth:bump:'' @ u, rls) \<in> set evs"
    by blast
  have "bumpEach s (u # us) = (Inr (), s')" using b e by simp
  moreover have "fired s' = fired s @ ((''auth:bump:'' @ u, rls) # evs)"
    using f by (simp add: fire_store)
  moreover have "\<forall>v \<in> set (u # us). \<exists>r. getUserRules s v = Inr r \<and>
      (''auth:bump:'' @ v, r) \<in> set ((''auth:bump:'' @ u, rls) # evs)"
    using ev rls by (auto simp: getUserRules_fire)
  ultimately show ?case using st by (auto simp: fire_store)
qed


lemma extend_rules_other_role:
  "\<forall>ur \<in> set urs. ur_role ur \<noteq> role \<Longrightarrow>
     extend_rules (s\<lparr>roles := (roles s)(role \<mapsto> rofo)\<rparr>) rls urs = extend_rules s rls urs"
  by (induction urs arbitrary: rls) (auto split: option.splits)

lemma getUserRules_role_upd:
  assumes "getUserRules (s\<lparr>roles := (roles s)(role \<mapsto> rofo)\<rparr>) v \<noteq> getUserRules s v"
  shows "v \<in> set (map ur_user (filter (\<lambda>ur. ur_role ur = role) (userroles s)))"
proof (rule ccontr)
  assume "\<not> ?thesis"
  then have "\<forall>ur \<in> set (filter (\<lambda>ur. ur_user ur = v) (userroles s)). ur_role ur \<noteq> role"
    by auto
  from extend_rules_other_role [OF this] have
    "getUserRules (s\<lparr>roles := (roles s)(role \<mapsto> rofo)\<rparr>) v = getUserRules s v"
    by (simp add: getUserRules_def reqUserTufo_def split: option.splits)
  with assms show False by simp
qed

lemma getUserRules_user_upd:
  "v \<noteq> u \<Longrightarrow> getUserRules (s\<lparr>users := (users s)(u \<mapsto> usfo)\<rparr>) v = getUserRules s v"
  using extend_rules_cong [of "s\<lparr>users := (users s)(u \<mapsto> usfo)\<rparr>" s]
  by (simp add: getUserRules_def reqUserTufo_def split: option.splits)

lemma store_ok_user_upd:
  "store_ok s \<Longrightarrow> store_ok (s\<lparr>users := (users s)(u \<mapsto> usfo)\<rparr>)"
  by (auto simp: store_ok_def)

lemma store_ok_role_upd:
  "store_ok s \<Longrightarrow> store_ok (s\<lparr>roles := (roles s)(role \<mapsto> rofo)\<rparr>)"
  by (auto simp: store_ok_def)

lemma user_rule_bumps:
  assumes ok: "store_ok s" and u: "users s u = Some usfo"
  shows "bumps_changed s (bumpUserRules (s\<lparr>users := (users s)(u \<mapsto> usfo')\<rparr>) u)"
proof -
  let ?s1 = "s\<lparr>users := (users s)(u \<mapsto> usfo')\<rparr>"
  have ok1: "store_ok ?s1" using ok by (rule store_ok_user_upd)
  have "users ?s1 u = Some usfo'" by simp
  from bumpUserRules_ok [OF ok1 this] obtain rls where
    rls: "getUserRules ?s1 u = Inr rls" and
    b: "bumpUserRules ?s1 u = (Inr (), fire ?s1 (''auth:bump:'' @ u) rls)" by blast
  let ?s' = "fire ?s1 (''auth:bump:'' @ u) rls"
  have f: "fired ?s' = fired s @ [(''auth:bump:'' @ u, rls)]" by (simp add: fire_store)
  have "\<exists>r. getUserRules ?s' v = Inr r \<and> (''auth:bump:'' @ v, r) \<in> set [(''auth:bump:'' @ u, rls)]"
    if "getUserRules ?s' v \<noteq> getUserRules s v" for v
  proof (cases "v = u")
    case True
    then show ?thesis using rls by (simp add: getUserRules_fire)
  next
    case False
    then have "getUserRules ?s' v = getUserRules s v"
      by (simp add: getUserRules_fire getUserRules_user_upd)
    with that show ?thesis by simp
  qed
  with f show ?thesis unfolding bumps_changed_def b by (intro conjI exI [of _ "[(''auth:bump:'' @ u, rls)]"]) auto
qed

lemma role_rule_bumps:
  assumes ok: "store_ok s" and r: "roles s role = Some rofo"
  shows "bumps_changed s
           (bumpEach (s\<lparr>roles := (roles s)(role \<mapsto> rofo')\<rparr>)
              (map ur_user (filter (\<lambda>ur. ur_role ur = role) (userroles s))))"
proof -
  let ?s1 = "s\<lparr>roles := (roles s)(role \<mapsto> rofo')\<rparr>"
  let ?us = "map ur_user (filter (\<lambda>ur. ur_role ur = role) (userroles s))"
  have ok1: "store_ok ?s1" using ok by (rule store_ok_role_upd)
  have us: "\<forall>u \<in> set ?us. users ?s1 u \<noteq> None" using ok by (auto simp: store_ok_def)
  from bumpEach_ok [OF ok1 us] obtain s' evs where
    e: "bumpEach ?s1 ?us = (Inr (), s')" and
    st: "users s' = users ?s1" "roles s' = roles ?s1" "userroles s' = userroles ?s1" and
    f: "fired s' = fired ?s1 @ evs" and
    ev: "\<forall>u \<in> set ?us. \<exists>rls. getUserRules ?s1 u = Inr rls \<and> (''auth:bump:'' @ u, rls) \<in> set evs"
    by blast
  have same: "getUserRules s' v = getUserRules ?s1 v" for v
    using st by (rule getUserRules_cong)
  have "\<exists>rls. getUserRules s' v = Inr rls \<and> (''auth:bump:'' @ v, rls) \<in> set evs"
    if "getUserRules s' v \<noteq> getUserRules s v" for v
  proof -
    from that have "getUserRules ?s1 v \<noteq> getUserRules s v" by (simp add: same)
    then have "v \<in> set ?us" by (rule getUserRules_role_upd)
    with ev have "\<exists>rls. getUserRules ?s1 v = Inr rls \<and> (''auth:bump:'' @ v, rls) \<in> set evs"
      by blast
    then show ?thesis by (simp add: same)
  qed
  with f e show ?thesis unfolding bumps_changed_def by auto
qed

lemma store_ok_init: "store_ok UserAuth_init"
  by (simp add: store_ok_def UserAuth_init_def)

lemma store_ok_addUser: "store_ok s \<Longrightarrow> store_ok (snd (addUser s user props))"
  by (auto simp: addUser_def store_ok_def Let_def)

lemma store_ok_addRole: "store_ok s \<Longrightarrow> store_ok (snd (addRole s role props))"
  by (auto simp: addRole_def store_ok_def Let_def)

lemma store_ok_addUserRule: "store_ok s \<Longrightarrow> store_ok (snd (addUserRule s user rule))"
  by (auto simp: addUserRule_def reqUserTufo_def store_ok_user_upd store_ok_bumpUserRules
      split: option.splits)

lemma store_ok_delUserRule: "store_ok s \<Longrightarrow> store_ok (snd (delUserRule s user rule))"
  by (auto simp: delUserRule_def reqUserTufo_def store_ok_user_upd store_ok_bumpUserRules
      split: option.splits)

lemma store_ok_addRoleRule: "store_ok s \<Longrightarrow> store_ok (snd (addRoleRule s role rule))"
  by (auto simp: addRoleRule_def reqRoleTufo_def Let_def store_ok_role_upd store_ok_bumpEach
      split: option.splits)

lemma store_ok_delRoleRule: "store_ok s \<Longrightarrow> store_ok (snd (delRoleRule s role rule))"
  by (auto simp: delRoleRule_def reqRoleTufo_def Let_def store_ok_role_upd store_ok_bumpEach
      split: option.splits)

lemma store_ok_addUserRole: "store_ok s \<Longrightarrow> store_ok (snd (addUserRole s user role))"
proof -
  assume ok: "store_ok s"
  have "store_ok (s\<lparr>userroles := userroles s @ [\<lparr>ur_valu = v, ur_user = user, ur_role = role\<rparr>]\<rparr>)"
    if "users s user \<noteq> None" "roles s role \<noteq> None" for v
    using ok that by (auto simp: store_ok_def)
  with ok show ?thesis
    by (auto simp: addUserRole_def reqUserTufo_def reqRoleTufo_def Let_def
        store_ok_bumpUserRules split: option.splits)
qed

lemma store_ok_delUserRole: "store_ok s \<Longrightarrow> store_ok (snd (delUserRole s user role))"
proof -
  assume ok: "store_ok s"
  have "store_ok (s\<lparr>userroles := filter P (userroles s)\<rparr>)" for P
    using ok by (auto simp: store_ok_def)
  with ok show ?thesis
    by (auto simp: delUserRole_def reqUserTufo_def reqRoleTufo_def
        store_ok_bumpUserRules split: option.splits)
qed

lemma store_ok_delUser: "store_ok s \<Longrightarrow> store_ok (snd (delUser s user))"
  by (auto simp: delUser_def reqUserTufo_def store_ok_def split: option.splits)

lemma store_ok_delRole: "store_ok s \<Longrightarrow> store_ok (snd (delRole s role))"
proof -
  assume ok: "store_ok s"
  have "store_ok (s\<lparr>roles := (roles s)(role := None),
                    userroles := filter (\<lambda>ur. ur_role ur \<noteq> role) (userroles s)\<rparr>)"
    using ok by (auto simp: store_ok_def)
  with ok show ?thesis
    by (auto simp: delRole_def reqRoleTufo_def Let_def store_ok_bumpEach split: option.splits)
qed

lemma r_user_allow: "r_user (snd (allow fnm obj perm)) = r_user obj"
  by (simp add: allow_def Let_def split: option.splits)

lemma store_ok_isUserAllowed: "store_ok s \<Longrightarrow> store_ok (snd (isUserAllowed fnm s user perm))"
proof -
  assume ok: "store_ok s"
  show ?thesis
  proof (cases "rules s user")
    case None
    show ?thesis
    proof (cases "users s user")
      case N: None
      then show ?thesis using ok None
        by (simp add: isUserAllowed_def rules_get_def getUserRulesCache_def getUserRules_None)
    next
      case (Some usfo)
      from getUserRules_ok [OF ok Some] obtain rls where "getUserRules s user = Inr rls" by blast
      then show ?thesis using ok None Some
        by (auto simp: isUserAllowed_def rules_get_def getUserRulesCache_def store_ok_def
            r_user_allow case_prod_beta)
    qed
  next
    case (Some obj)
    then show ?thesis using ok
      by (auto simp: isUserAllowed_def rules_get_def store_ok_def r_user_allow case_prod_beta)
  qed
qed

lemma teleSockInit_same: "teleSockInit s = s"
proof -
  have "(\<lambda>k. map_option (\<lambda>obj. snd (onTeleSock obj)) (rules s k)) = rules s"
    by (rule ext) (simp add: onTeleSock_def option.map_ident)
  then show ?thesis by (simp add: teleSockInit_def)
qed

text \<open>
  Claim C5. For a user of a well-formed store, \<^verbatim>\<open>getUserRules\<close> returns the user's own
  rules followed by the rules of each role the user holds, the roles taken in the order
  the store returns the user's links, which is the order \<^verbatim>\<open>getUserRoles\<close> lists them.
\<close>

theorem getUserRules_own_then_roles:
  "store_ok s \<Longrightarrow> users s u = Some usfo \<Longrightarrow>
     getUserRoles s u = Inr (map ur_role (filter (\<lambda>ur. ur_user ur = u) (userroles s))) \<and>
     getUserRules s u =
       Inr (s_rules usfo @ concat (map (rules_of_role s)
              (map ur_role (filter (\<lambda>ur. ur_user ur = u) (userroles s)))))"
  by (simp add: getUserRules_ok getUserRoles_def reqUserTufo_def)

text \<open>
  Claim C10. In a well-formed store, \<^verbatim>\<open>isUserAllowed\<close> for a name that is no user does
  not return a decision: making the Rules object asks \<^verbatim>\<open>getUserRules\<close>, which raises
  \<^verbatim>\<open>NoSuchUser\<close>, and nothing is kept for the name.
\<close>

theorem isUserAllowed_no_such_user:
  "store_ok s \<Longrightarrow> users s u = None \<Longrightarrow> isUserAllowed fnm s u p = (Inl (NoSuchUser u), s)"
proof -
  assume ok: "store_ok s" and u: "users s u = None"
  have "rules s u = None"
  proof (cases "rules s u")
    case (Some obj)
    with ok have "users s u \<noteq> None" unfolding store_ok_def by blast
    with u show ?thesis by simp
  qed simp
  with u show ?thesis
    by (simp add: isUserAllowed_def rules_get_def getUserRulesCache_def getUserRules_None)
qed

text \<open>
  Claim C7. \<^verbatim>\<open>addUser\<close> raises \<^verbatim>\<open>DupUser\<close>, and \<^verbatim>\<open>addRole\<close> raises \<^verbatim>\<open>DupRole\<close>, when the
  name is taken, and the store is then as it was; when the name is free they return the
  tufo formed for it, which the store then holds under the name, every other name being
  as before.
\<close>

theorem add_subject_dup_or_new:
  "(users s name \<noteq> None \<longrightarrow> addUser s name props = (Inl (DupUser name), s)) \<and>
   (roles s name \<noteq> None \<longrightarrow> addRole s name props = (Inl (DupRole name), s)) \<and>
   (users s name = None \<longrightarrow>
      fst (addUser s name props) = Inr (formTufoByProp ''auth:user'' name props) \<and>
      getUser (snd (addUser s name props)) name = Some (formTufoByProp ''auth:user'' name props) \<and>
      (\<forall>other. other \<noteq> name \<longrightarrow> users (snd (addUser s name props)) other = users s other)) \<and>
   (roles s name = None \<longrightarrow>
      fst (addRole s name props) = Inr (formTufoByProp ''auth:role'' name props) \<and>
      roles (snd (addRole s name props)) name
        = Some \<lparr>s_tufo = formTufoByProp ''auth:role'' name props, s_rules = []\<rparr> \<and>
      (\<forall>other. other \<noteq> name \<longrightarrow> roles (snd (addRole s name props)) other = roles s other))"
  by (simp add: addUser_def addRole_def getUser_def Let_def)

text \<open>
  Claim C8. \<^verbatim>\<open>addUserRule\<close> and \<^verbatim>\<open>delUserRule\<close> raise \<^verbatim>\<open>NoSuchUser\<close>, and \<^verbatim>\<open>addRoleRule\<close>
  and \<^verbatim>\<open>delRoleRule\<close> raise \<^verbatim>\<open>NoSuchRole\<close>, when the subject does not exist, leaving
  the whole state, fired events included, as it was. On a well-formed store with the
  subject present each of the four succeeds and fires \<^verbatim>\<open>auth:bump:<user>\<close>, with the new
  rule list, for every user whose effective rule list has changed.
\<close>

theorem rule_edits_require_subject_and_bump:
  "(users s u = None \<longrightarrow>
      addUserRule s u rule = (Inl (NoSuchUser u), s) \<and>
      delUserRule s u rule = (Inl (NoSuchUser u), s)) \<and>
   (roles s role = None \<longrightarrow>
      addRoleRule s role rule = (Inl (NoSuchRole role), s) \<and>
      delRoleRule s role rule = (Inl (NoSuchRole role), s)) \<and>
   (store_ok s \<and> users s u \<noteq> None \<longrightarrow>
      bumps_changed s (addUserRule s u rule) \<and> bumps_changed s (delUserRule s u rule)) \<and>
   (store_ok s \<and> roles s role \<noteq> None \<longrightarrow>
      bumps_changed s (addRoleRule s role rule) \<and> bumps_changed s (delRoleRule s role rule))"
proof (intro conjI impI)
  assume "store_ok s \<and> users s u \<noteq> None"
  then obtain usfo where ok: "store_ok s" and u: "users s u = Some usfo" by auto
  show "bumps_changed s (addUserRule s u rule)"
    using user_rule_bumps [OF ok u] u by (simp add: addUserRule_def reqUserTufo_def)
  show "bumps_changed s (delUserRule s u rule)"
    using user_rule_bumps [OF ok u] u by (simp add: delUserRule_def reqUserTufo_def)
next
  assume "store_ok s \<and> roles s role \<noteq> None"
  then obtain rofo where ok: "store_ok s" and r: "roles s role = Some rofo" by auto
  show "bumps_changed s (addRoleRule s role rule)"
    using role_rule_bumps [OF ok r] r by (simp add: addRoleRule_def reqRoleTufo_def Let_def)
  show "bumps_changed s (delRoleRule s role rule)"
    using role_rule_bumps [OF ok r] r by (simp add: delRoleRule_def reqRoleTufo_def Let_def)
qed (simp_all add: addUserRule_def delUserRule_def addRoleRule_def delRoleRule_def
      reqUserTufo_def reqRoleTufo_def)

text \<open>
  Claim C2. For a user of a well-formed store, \<^verbatim>\<open>addUserRule\<close> succeeds, the user's
  effective rule list is then the old one with the rule added to the user's own part,
  and \<^verbatim>\<open>isUserAllowed\<close> called next decides against exactly that list, whatever
  decisions were cached for the user before.
\<close>

theorem addUserRule_then_isUserAllowed:
  assumes ok: "store_ok s" and u: "users s u = Some usfo"
  shows "fst (addUserRule s u rule) = Inr () \<and>
         getUserRules (snd (addUserRule s u rule)) u =
           Inr (s_rules usfo @ rule # concat (map (rules_of_role s)
                  (map ur_role (filter (\<lambda>ur. ur_user ur = u) (userroles s))))) \<and>
         fst (isUserAllowed fnm (snd (addUserRule s u rule)) u perm) =
           Inr (\<exists>r \<in> set (s_rules usfo @ rule # concat (map (rules_of_role s)
                  (map ur_role (filter (\<lambda>ur. ur_user ur = u) (userroles s))))). fnm perm r)"
proof -
  let ?usfo' = "usfo\<lparr>s_rules := s_rules usfo @ [rule]\<rparr>"
  let ?s0 = "s\<lparr>users := (users s)(u \<mapsto> ?usfo')\<rparr>"
  let ?new = "s_rules usfo @ rule # concat (map (rules_of_role s)
                  (map ur_role (filter (\<lambda>ur. ur_user ur = u) (userroles s))))"
  have ok0: "store_ok ?s0" using ok by (rule store_ok_user_upd)
  have u0: "users ?s0 u = Some ?usfo'" by simp
  have rr: "rules_of_role ?s0 = rules_of_role s" by (rule ext) (simp add: rules_of_role_def)
  have g0: "getUserRules ?s0 u = Inr ?new"
    using getUserRules_ok [OF ok0 u0] by (simp add: rr)
  let ?s1 = "fire ?s0 (''auth:bump:'' @ u) ?new"
  have a: "addUserRule s u rule = (Inr (), ?s1)"
    using u g0 by (simp add: addUserRule_def reqUserTufo_def bumpUserRules_def)
  have g1: "getUserRules ?s1 u = Inr ?new" using g0 by (simp add: getUserRules_fire)
  have "fst (isUserAllowed fnm ?s1 u perm) = Inr (scan fnm perm ?new)"
  proof (cases "rules s u")
    case None
    then have "rules ?s1 u = None" by (simp add: rules_fire)
    then show ?thesis using g1
      by (simp add: isUserAllowed_def rules_get_def getUserRulesCache_def allow_def Let_def)
  next
    case (Some obj)
    with ok have "r_user obj = u" by (simp add: store_ok_def)
    with Some have "rules ?s1 u = Some (onBumpUser obj ?new)" by (simp add: rules_fire)
    then show ?thesis
      by (simp add: isUserAllowed_def rules_get_def allow_def Let_def onBumpUser_def)
  qed
  with a g1 show ?thesis by (simp add: scan_iff)
qed

section \<open>The operations on the example store\<close>

lemma example_store_ok: "store_ok example_store"
  by (simp add: store_ok_def example_store_def)

text \<open>The example store is what nine calls make of a fresh store.\<close>

lemma example_store_reached:
  "example_store =
     snd (isUserAllowed glob_match
       (snd (addUserRole
         (snd (addRoleRule
           (snd (addRole
             (snd (addUserRole
               (snd (addRoleRule
                 (snd (addRole
                   (snd (addUserRule
                     (snd (addUser UserAuth_init ''visi'' []))
                     ''visi'' ''foo.bar''))
                   ''ops'' []))
                 ''ops'' ''node:*''))
               ''visi'' ''ops''))
             ''admin'' []))
           ''admin'' ''tufo.form.baz''))
         ''visi'' ''admin''))
       ''visi'' ''tufo.form.foo:bar'')"
proof -
  let ?visi = "formTufoByProp ''auth:user'' ''visi'' []"
  let ?ops = "formTufoByProp ''auth:role'' ''ops'' []"
  let ?admin = "formTufoByProp ''auth:role'' ''admin'' []"
  let ?e1 = "(''auth:bump:visi'', [''foo.bar''])"
  let ?e2 = "(''auth:bump:visi'', [''foo.bar'', ''node:*''])"
  let ?e3 = "(''auth:bump:visi'', [''foo.bar'', ''node:*'', ''tufo.form.baz''])"
  let ?l1 = "\<lparr>ur_valu = ''visi:ops'', ur_user = ''visi'', ur_role = ''ops''\<rparr>"
  let ?l2 = "\<lparr>ur_valu = ''visi:admin'', ur_user = ''visi'', ur_role = ''admin''\<rparr>"
  let ?s1 = "\<lparr>users = [''visi'' \<mapsto> \<lparr>s_tufo = ?visi, s_rules = []\<rparr>], roles = Map.empty,
              userroles = [], rules = Map.empty, fired = []\<rparr>"
  let ?s2 = "\<lparr>users = [''visi'' \<mapsto> \<lparr>s_tufo = ?visi, s_rules = [''foo.bar'']\<rparr>], roles = Map.empty,
              userroles = [], rules = Map.empty, fired = [?e1]\<rparr>"
  let ?s3 = "?s2\<lparr>roles := [''ops'' \<mapsto> \<lparr>s_tufo = ?ops, s_rules = []\<rparr>]\<rparr>"
  let ?s4 = "?s2\<lparr>roles := [''ops'' \<mapsto> \<lparr>s_tufo = ?ops, s_rules = [''node:*'']\<rparr>]\<rparr>"
  let ?s5 = "?s4\<lparr>userroles := [?l1], fired := [?e1, ?e2]\<rparr>"
  let ?s6 = "?s5\<lparr>roles := [''ops'' \<mapsto> \<lparr>s_tufo = ?ops, s_rules = [''node:*'']\<rparr>,
                              ''admin'' \<mapsto> \<lparr>s_tufo = ?admin, s_rules = []\<rparr>]\<rparr>"
  let ?s7 = "?s5\<lparr>roles := [''ops'' \<mapsto> \<lparr>s_tufo = ?ops, s_rules = [''node:*'']\<rparr>,
                              ''admin'' \<mapsto> \<lparr>s_tufo = ?admin, s_rules = [''tufo.form.baz'']\<rparr>]\<rparr>"
  let ?s8 = "?s7\<lparr>userroles := [?l1, ?l2], fired := [?e1, ?e2, ?e3]\<rparr>"
  have 1: "snd (addUser UserAuth_init ''visi'' []) = ?s1"
    by (simp add: addUser_def UserAuth_init_def Let_def)
  have 2: "snd (addUserRule ?s1 ''visi'' ''foo.bar'') = ?s2"
    by (simp add: addUserRule_def reqUserTufo_def bumpUserRules_def getUserRules_def fire_def)
  have 3: "snd (addRole ?s2 ''ops'' []) = ?s3"
    by (simp add: addRole_def Let_def)
  have 4: "snd (addRoleRule ?s3 ''ops'' ''node:*'') = ?s4"
    by (simp add: addRoleRule_def reqRoleTufo_def Let_def)
  have 5: "snd (addUserRole ?s4 ''visi'' ''ops'') = ?s5"
    by (simp add: addUserRole_def reqUserTufo_def reqRoleTufo_def Let_def bumpUserRules_def
        getUserRules_def fire_def)
  have 6: "snd (addRole ?s5 ''admin'' []) = ?s6"
    by (simp add: addRole_def Let_def)
  have 7: "snd (addRoleRule ?s6 ''admin'' ''tufo.form.baz'') = ?s7"
    by (simp add: addRoleRule_def reqRoleTufo_def Let_def)
  have 8: "snd (addUserRole ?s7 ''visi'' ''admin'') = ?s8"
    by (simp add: addUserRole_def reqUserTufo_def reqRoleTufo_def Let_def bumpUserRules_def
        getUserRules_def fire_def)
  have 9: "snd (isUserAllowed glob_match ?s8 ''visi'' ''tufo.form.foo:bar'') = example_store"
    by (simp add: isUserAllowed_def rules_get_def getUserRulesCache_def getUserRules_def
        reqUserTufo_def allow_def glob_match_def example_store_def)
  show ?thesis by (simp only: 1 2 3 4 5 6 7 8 9)
qed

theorem getUserRules_own_then_roles_witness:
  "store_ok example_store \<and>
   users example_store ''visi''
     = Some \<lparr>s_tufo = formTufoByProp ''auth:user'' ''visi'' [], s_rules = [''foo.bar'']\<rparr> \<and>
   getUserRoles example_store ''visi'' = Inr [''ops'', ''admin''] \<and>
   getUserRules example_store ''visi'' = Inr [''foo.bar'', ''node:*'', ''tufo.form.baz'']"
proof -
  have u: "users example_store ''visi''
     = Some \<lparr>s_tufo = formTufoByProp ''auth:user'' ''visi'' [], s_rules = [''foo.bar'']\<rparr>"
    by (simp add: example_store_def)
  have l: "map ur_role (filter (\<lambda>ur. ur_user ur = ''visi'') (userroles example_store))
      = [''ops'', ''admin'']"
    by (simp add: example_store_def)
  have r: "rules_of_role example_store ''ops'' = [''node:*'']"
    "rules_of_role example_store ''admin'' = [''tufo.form.baz'']"
    by (simp_all add: example_store_def rules_of_role_def)
  from getUserRules_own_then_roles [OF example_store_ok u] show ?thesis
    by (simp add: example_store_ok u l r)
qed

theorem isUserAllowed_no_such_user_witness:
  "store_ok example_store \<and> users example_store ''nobody'' = None \<and>
   isUserAllowed glob_match example_store ''nobody'' ''tufo.form.foo:bar''
     = (Inl (NoSuchUser ''nobody''), example_store)"
proof -
  have u: "users example_store ''nobody'' = None" by (simp add: example_store_def)
  from isUserAllowed_no_such_user [OF example_store_ok u] show ?thesis
    by (simp add: example_store_ok u)
qed

theorem add_subject_dup_or_new_witness:
  "users example_store ''visi'' \<noteq> None \<and>
   addUser example_store ''visi'' [] = (Inl (DupUser ''visi''), example_store) \<and>
   roles example_store ''admin'' \<noteq> None \<and>
   addRole example_store ''admin'' [] = (Inl (DupRole ''admin''), example_store) \<and>
   users example_store ''admin'' = None \<and>
   fst (addUser example_store ''admin'' []) = Inr (formTufoByProp ''auth:user'' ''admin'' []) \<and>
   getUser (snd (addUser example_store ''admin'' [])) ''admin''
     = Some (formTufoByProp ''auth:user'' ''admin'' []) \<and>
   roles example_store ''visi'' = None \<and>
   fst (addRole example_store ''visi'' []) = Inr (formTufoByProp ''auth:role'' ''visi'' [])"
  using add_subject_dup_or_new [of example_store "''visi''" "[]"]
    add_subject_dup_or_new [of example_store "''admin''" "[]"]
  by (simp add: example_store_def)

theorem rule_edits_require_subject_and_bump_witness:
  "users example_store ''nobody'' = None \<and>
   addUserRule example_store ''nobody'' ''tufo.form.foo:*''
     = (Inl (NoSuchUser ''nobody''), example_store) \<and>
   roles example_store ''nobody'' = None \<and>
   delRoleRule example_store ''nobody'' ''tufo.form.foo:*''
     = (Inl (NoSuchRole ''nobody''), example_store) \<and>
   store_ok example_store \<and> users example_store ''visi'' \<noteq> None \<and>
   roles example_store ''admin'' \<noteq> None \<and>
   bumps_changed example_store (addUserRule example_store ''visi'' ''tufo.form.foo:*'') \<and>
   bumps_changed example_store (delUserRule example_store ''visi'' ''foo.bar'') \<and>
   bumps_changed example_store (addRoleRule example_store ''admin'' ''tufo.form.foo:*'') \<and>
   bumps_changed example_store (delRoleRule example_store ''admin'' ''tufo.form.baz'')"
proof -
  have n: "users example_store ''nobody'' = None" "roles example_store ''nobody'' = None"
    and y: "users example_store ''visi'' \<noteq> None" "roles example_store ''admin'' \<noteq> None"
    by (simp_all add: example_store_def)
  from rule_edits_require_subject_and_bump [of example_store "''nobody''" "''tufo.form.foo:*''" "''nobody''"]
    rule_edits_require_subject_and_bump [of example_store "''visi''" "''tufo.form.foo:*''" "''admin''"]
    rule_edits_require_subject_and_bump [of example_store "''visi''" "''foo.bar''" "''admin''"]
    rule_edits_require_subject_and_bump [of example_store "''visi''" "''tufo.form.baz''" "''admin''"]
  show ?thesis using n y example_store_ok by simp
qed

lemma example_addRoleRule_fired:
  "fired (snd (addRoleRule example_store ''admin'' ''tufo.form.foo:*''))
     = fired example_store
       @ [(''auth:bump:visi'', [''foo.bar'', ''node:*'', ''tufo.form.baz'', ''tufo.form.foo:*''])]"
  by (simp add: addRoleRule_def reqRoleTufo_def Let_def bumpUserRules_def getUserRules_def
      reqUserTufo_def fire_def example_store_def)

theorem addUserRule_then_isUserAllowed_witness:
  "store_ok example_store \<and>
   users example_store ''visi''
     = Some \<lparr>s_tufo = formTufoByProp ''auth:user'' ''visi'' [], s_rules = [''foo.bar'']\<rparr> \<and>
   fst (isUserAllowed glob_match example_store ''visi'' ''tufo.form.foo:bar'') = Inr False \<and>
   fst (isUserAllowed glob_match
          (snd (addUserRule example_store ''visi'' ''tufo.form.foo:*''))
          ''visi'' ''tufo.form.foo:bar'') = Inr True"
proof -
  have u: "users example_store ''visi''
     = Some \<lparr>s_tufo = formTufoByProp ''auth:user'' ''visi'' [], s_rules = [''foo.bar'']\<rparr>"
    by (simp add: example_store_def)
  have before: "fst (isUserAllowed glob_match example_store ''visi'' ''tufo.form.foo:bar'') = Inr False"
    by (simp add: isUserAllowed_def rules_get_def allow_def example_store_def)
  have m: "glob_match ''tufo.form.foo:bar'' ''tufo.form.foo:*''" by (simp add: glob_match_def)
  from addUserRule_then_isUserAllowed
    [OF example_store_ok u, of "''tufo.form.foo:*''" glob_match "''tufo.form.foo:bar''"]
  show ?thesis using u before m by (simp add: example_store_ok)
qed

text \<open>
  Claim C4. \<^verbatim>\<open>getRole\<close> has no body beyond its docstring. After \<^verbatim>\<open>addRole('admin')\<close>
  has succeeded on a fresh store and the store holds the role, \<^verbatim>\<open>getRole('admin')\<close>
  is \<^verbatim>\<open>None\<close>, where \<^verbatim>\<open>getUser\<close> after \<^verbatim>\<open>addUser\<close> gives the tufo.
\<close>

theorem getRole_after_addRole_is_None:
  "fst (addRole UserAuth_init ''admin'' []) = Inr (formTufoByProp ''auth:role'' ''admin'' []) \<and>
   roles (snd (addRole UserAuth_init ''admin'' [])) ''admin''
     = Some \<lparr>s_tufo = formTufoByProp ''auth:role'' ''admin'' [], s_rules = []\<rparr> \<and>
   getRole (snd (addRole UserAuth_init ''admin'' [])) ''admin'' = None \<and>
   getUser (snd (addUser UserAuth_init ''visi'' [])) ''visi''
     = Some (formTufoByProp ''auth:user'' ''visi'' [])"
  by (simp add: addRole_def addUser_def getRole_def getUser_def UserAuth_init_def Let_def)

text \<open>
  Claim C3. On the reconnect signal \<^verbatim>\<open>_onTeleSock\<close> raises \<^verbatim>\<open>NameError\<close> and leaves the
  Rules object as it was: the rule list is not fetched again and the cache is not
  cleared. In the store that missed an event, the list \<^verbatim>\<open>getUserRules\<close> gives allows
  \<^verbatim>\<open>tufo.form.foo:bar\<close>, and after the signal \<^verbatim>\<open>isUserAllowed\<close> still answers False.
\<close>

theorem onTeleSock_keeps_stale_rules:
  "rules stale_store ''visi''
     = Some \<lparr>r_user = ''visi'', r_rules = [''foo.bar'', ''node:*'', ''tufo.form.baz''],
             r_cache = [''tufo.form.foo:bar'' \<mapsto> False]\<rparr> \<and>
   onTeleSock \<lparr>r_user = ''visi'', r_rules = [''foo.bar'', ''node:*'', ''tufo.form.baz''],
               r_cache = [''tufo.form.foo:bar'' \<mapsto> False]\<rparr>
     = (Inl (NameError ''user''),
        \<lparr>r_user = ''visi'', r_rules = [''foo.bar'', ''node:*'', ''tufo.form.baz''],
         r_cache = [''tufo.form.foo:bar'' \<mapsto> False]\<rparr>) \<and>
   rules (teleSockInit stale_store) ''visi'' = rules stale_store ''visi'' \<and>
   getUserRules stale_store ''visi''
     = Inr [''foo.bar'', ''tufo.form.foo:*'', ''node:*'', ''tufo.form.baz''] \<and>
   scan glob_match ''tufo.form.foo:bar''
     [''foo.bar'', ''tufo.form.foo:*'', ''node:*'', ''tufo.form.baz''] = True \<and>
   fst (isUserAllowed glob_match (teleSockInit stale_store) ''visi'' ''tufo.form.foo:bar'')
     = Inr False"
  by (simp add: teleSockInit_same onTeleSock_def stale_store_def example_store_def
      getUserRules_def reqUserTufo_def isUserAllowed_def rules_get_def allow_def glob_match_def)

end
